theory Spec2Isabelle
  imports Main "HOL-Library.Sublist"
begin

section \<open>The question table\<close>

text \<open>
  A row of the data frame, restricted to the four columns that \<open>app.py\<close> reads.
  Text is modelled as ASCII strings and the \<open>ID\<close> column as Python integers. The
  \<open>Category\<close> column holds strings: a column that pandas reads as numbers, or a cell it
  reads as NaN, is outside the model.
\<close>

record question =
  ID :: int
  Category :: string
  Question :: string
  Answer :: string

text \<open>
  A data frame is described by its column names and its rows. The fields of a row whose
  column is absent from \<open>columns\<close> are never read by \<open>load_data\<close>.
\<close>

record dataframe =
  columns :: "string list"
  rows :: "question list"

text \<open>
  The exceptions of the model. A \<open>KeyError\<close> carries the key that was not found: a column
  name (\<open>df['Category']\<close>) or an element of the bookmark set (\<open>set.remove\<close>).
\<close>

datatype key = Col string | Elem int

datatype error = KeyError key | IndexError | ReError | OSError | DuplicateWidgetID

subsection \<open>\<open>create_demo_data\<close> and \<open>load_data\<close>\<close>

text \<open>
  What is found at \<open>FILE_PATH\<close>: nothing (and then whether a file can be created there),
  or a file on which \<open>pd.read_csv\<close> either raises (with a message) or yields a frame.
\<close>

datatype source = NoFile bool | CsvFile "string + dataframe"

definition demo_rows :: "question list" where
  "demo_rows =
    [\<lparr>ID = 1, Category = ''Basics'', Question = ''What is React?'',
      Answer = ''A JS library for building UIs.''\<rparr>,
     \<lparr>ID = 2, Category = ''Hooks'', Question = ''What is useEffect?'',
      Answer = ''A hook for side effects.''\<rparr>,
     \<lparr>ID = 3, Category = ''Components'',
      Question = ''Difference between Class and Functional components?'',
      Answer = ''Class uses this.state, Func uses hooks.''\<rparr>,
     \<lparr>ID = 501, Category = ''System Design'', Question = ''Design an Infinite Scroll feed.'',
      Answer = ''Use Virtualization (Windowing) and DOM recycling.''\<rparr>,
     \<lparr>ID = 502, Category = ''System Design'', Question = ''Architect a Real-Time Chat App.'',
      Answer = ''Use WebSockets, Optimistic UI, and IndexedDB.''\<rparr>]"

definition required_cols :: "string list" where
  "required_cols = [''ID'', ''Category'', ''Question'', ''Answer'']"

text \<open>
  \<open>create_demo_data\<close> builds the frame, writes it to \<open>FILE_PATH\<close> with \<open>to_csv\<close> and
  returns it; the write is not guarded, so its failure propagates.
\<close>

definition create_demo_data :: "bool \<Rightarrow> error + dataframe \<times> source" where
  "create_demo_data writable =
    (let df = \<lparr>columns = required_cols, rows = demo_rows\<rparr>
     in if writable then Inr (df, CsvFile (Inr df)) else Inl OSError)"

text \<open>
  \<open>load_data\<close> returns the frame, the messages passed to \<open>st.error\<close> and the state of the
  file afterwards. Only the \<open>read_csv\<close> branch is inside the \<open>try\<close>.
\<close>

definition load_data :: "source \<Rightarrow> error + dataframe \<times> string list \<times> source" where
  "load_data src =
    (case src of
       NoFile writable \<Rightarrow>
         (case create_demo_data writable of
            Inl e \<Rightarrow> Inl e
          | Inr (df, src') \<Rightarrow> Inr (df, [], src'))
     | CsvFile (Inr df) \<Rightarrow>
         (if \<not> list_all (\<lambda>col. col \<in> set (columns df)) required_cols
          then Inr (\<lparr>columns = required_cols, rows = []\<rparr>,
                [''CSV is missing required columns: ID, Category, Question, Answer''], src)
          else Inr (df, [], src))
     | CsvFile (Inl e) \<Rightarrow>
         Inr (\<lparr>columns = [], rows = []\<rparr>, [''Error loading data: '' @ e], src))"

section \<open>Filtering\<close>

subsection \<open>The category filter (\<open>filtered_df\<close>)\<close>

definition filtered_df :: "question list \<Rightarrow> string list \<Rightarrow> question list" where
  "filtered_df df selected_categories =
    (if selected_categories \<noteq> []
     then filter (\<lambda>row. Category row \<in> set selected_categories) df
     else df)"

subsection \<open>\<open>Series.str.contains(pat, case=False)\<close>\<close>

text \<open>
  \<open>str.contains\<close> is called without \<open>regex=False\<close>, so pandas compiles the query with
  \<open>re.compile(pat, re.IGNORECASE)\<close> and keeps the rows where \<open>search\<close> finds a match.
  The model covers the patterns made of ordinary characters and the dot, and the patterns
  that start with a repetition operator, which \<open>re.compile\<close> rejects (nothing to repeat).
  Every other pattern is outside the model.
\<close>

datatype atom = Lit char | AnyChar

datatype 'a result = Ok 'a | Raises error | Unmodelled

definition special_chars :: "char list" where
  "special_chars =
    [CHR ''.'', CHR ''^'', CHR ''$'', CHR ''*'', CHR ''+'', CHR ''?'', CHR ''{'', CHR ''}'',
     CHR ''['', CHR '']'', CHR 0x5C, CHR ''|'', CHR ''('', CHR '')'']"

definition repeat_chars :: "char list" where
  "repeat_chars = [CHR ''*'', CHR ''+'', CHR ''?'']"

definition plain :: "string \<Rightarrow> bool" where
  "plain pat = list_all (\<lambda>c. c \<notin> set special_chars) pat"

definition to_atom :: "char \<Rightarrow> atom" where
  "to_atom c = (if c = CHR ''.'' then AnyChar else Lit c)"

definition re_compile :: "string \<Rightarrow> atom list result" where
  "re_compile pat =
    (case pat of
       [] \<Rightarrow> Ok []
     | c # cs \<Rightarrow>
         if c \<in> set repeat_chars then Raises ReError
         else if list_all (\<lambda>c. c = CHR ''.'' \<or> c \<notin> set special_chars) pat
         then Ok (map to_atom pat)
         else Unmodelled)"

definition lower :: "char \<Rightarrow> char" where
  "lower c =
    (let n = (of_char c :: nat) in if 65 \<le> n \<and> n \<le> 90 then char_of (n + 32) else c)"

fun atom_ok :: "atom \<Rightarrow> char \<Rightarrow> bool" where
  "atom_ok (Lit a) c = (lower a = lower c)"
| "atom_ok AnyChar c = (c \<noteq> CHR 0x0A)"

fun match_here :: "atom list \<Rightarrow> string \<Rightarrow> bool" where
  "match_here [] s = True"
| "match_here (a # as) [] = False"
| "match_here (a # as) (c # cs) = (atom_ok a c \<and> match_here as cs)"

fun re_search :: "atom list \<Rightarrow> string \<Rightarrow> bool" where
  "re_search p [] = match_here p []"
| "re_search p (c # cs) = (match_here p (c # cs) \<or> re_search p cs)"

subsection \<open>The search filter (\<open>display_df\<close>)\<close>

definition display_df :: "question list \<Rightarrow> string \<Rightarrow> question list result" where
  "display_df fdf search_query =
    (if search_query \<noteq> []
     then (case re_compile search_query of
             Ok p \<Rightarrow> Ok (filter (\<lambda>row. re_search p (Question row) \<or> re_search p (Answer row)) fdf)
           | Raises e \<Rightarrow> Raises e
           | Unmodelled \<Rightarrow> Unmodelled)
     else Ok fdf)"

text \<open>The two filters in sequence, as the Browse page applies them.\<close>

definition filter_view :: "question list \<Rightarrow> string list \<Rightarrow> string \<Rightarrow> question list result" where
  "filter_view df selected_categories search_query =
    display_df (filtered_df df selected_categories) search_query"

subsection \<open>The predicates of the specification\<close>

definition category_pred :: "string list \<Rightarrow> question \<Rightarrow> bool" where
  "category_pred C r = (C = [] \<or> Category r \<in> set C)"

definition ci_substring :: "string \<Rightarrow> string \<Rightarrow> bool" where
  "ci_substring q s = sublist (map lower q) (map lower s)"

definition text_pred :: "string \<Rightarrow> question \<Rightarrow> bool" where
  "text_pred q r = (q = [] \<or> ci_substring q (Question r) \<or> ci_substring q (Answer r))"

definition spec_filter :: "question list \<Rightarrow> string list \<Rightarrow> string \<Rightarrow> question list" where
  "spec_filter T C q = filter (\<lambda>r. category_pred C r \<and> text_pred q r) T"

section \<open>Session state and the script\<close>

text \<open>
  \<open>st.session_state\<close> holds the bookmarks, the flashcard cursor and the reveal flag
  (\<open>random_mode\<close> is initialised and never read). The widgets of one run give the study
  mode, the selected categories and the search text; at most one button is pressed.
  The pages are modelled over the rows of a loaded frame that has the four columns.
\<close>

record session =
  bookmarks :: "int set"
  current_index :: int
  reveal :: bool
  random_mode :: bool

definition initial_session :: session where
  "initial_session = \<lparr>bookmarks = {}, current_index = 0, reveal = False, random_mode = False\<rparr>"

datatype mode = Browse | Flashcards | Bookmarks

record inputs =
  mode :: mode
  selected_categories :: "string list"
  search_query :: string

text \<open>
  The buttons. \<open>BrowseBm i\<close> and \<open>RemoveBookmark i\<close> are the buttons with keys
  \<open>browse_bm_i\<close> and \<open>rm_i\<close>; \<open>RandomQuestion r\<close> carries the value \<open>r\<close> that
  \<open>random.randint(0, len(filtered_df) - 1)\<close> returns in that run.
\<close>

datatype click =
  NoClick | ClearBookmarks | BrowseBm int | Previous | RandomQuestion int | Next
  | FlashBm | RevealAnswer | Hard | Okay | Easy | RemoveBookmark int

text \<open>What a completed run shows; \<open>Flashcard q shown\<close> shows the answer iff \<open>shown\<close>.\<close>

datatype view =
  BrowseList "question list" | NoQuestions | Flashcard question bool
  | NoBookmarks | BookmarkList "question list"

text \<open>
  A run of the script ends in \<open>st.rerun()\<close>, completes with a page, or raises.
  \<open>OutOfModel\<close> marks a search pattern outside the modelled part of \<open>re\<close>.
\<close>

datatype outcome = Rerun session | Done session view | Raised error | OutOfModel

subsection \<open>The bookmark set\<close>

definition set_add :: "int \<Rightarrow> int set \<Rightarrow> int set" where
  "set_add i b = insert i b"

text \<open>Python's \<open>set.remove\<close> raises \<open>KeyError\<close> on an absent element.\<close>

definition set_remove :: "int \<Rightarrow> int set \<Rightarrow> error + int set" where
  "set_remove i b = (if i \<in> b then Inr (b - {i}) else Inl (KeyError (Elem i)))"

definition remove_bookmark :: "int \<Rightarrow> session \<Rightarrow> outcome" where
  "remove_bookmark i s =
    (case set_remove i (bookmarks s) of
       Inl e \<Rightarrow> Raised e
     | Inr b \<Rightarrow> Rerun (s\<lparr>bookmarks := b\<rparr>))"

definition toggle_bookmark :: "int \<Rightarrow> session \<Rightarrow> outcome" where
  "toggle_bookmark i s =
    (let is_bookmarked = i \<in> bookmarks s in
     if is_bookmarked then remove_bookmark i s
     else Rerun (s\<lparr>bookmarks := set_add i (bookmarks s)\<rparr>))"

subsection \<open>The flashcard cursor\<close>

text \<open>\<open>DataFrame.iloc[i]\<close>: a negative position counts from the end.\<close>

definition iloc :: "'a list \<Rightarrow> int \<Rightarrow> error + 'a" where
  "iloc xs i =
    (if 0 \<le> i \<and> i < int (length xs) then Inr (xs ! nat i)
     else if i < 0 \<and> - int (length xs) \<le> i then Inr (xs ! nat (int (length xs) + i))
     else Inl IndexError)"

definition clamp :: "question list \<Rightarrow> session \<Rightarrow> session" where
  "clamp fdf s =
    (if current_index s \<ge> int (length fdf) then s\<lparr>current_index := 0\<rparr> else s)"

text \<open>
  The three navigation buttons. They are created in the branch where \<open>filtered_df\<close> is
  not empty, so the modulus is positive there.
\<close>

definition press_previous :: "question list \<Rightarrow> session \<Rightarrow> session" where
  "press_previous fdf s =
    s\<lparr>current_index := (current_index s - 1) mod int (length fdf), reveal := False\<rparr>"

definition press_random :: "int \<Rightarrow> session \<Rightarrow> session" where
  "press_random r s = s\<lparr>current_index := r, reveal := False\<rparr>"

definition press_next :: "question list \<Rightarrow> session \<Rightarrow> session" where
  "press_next fdf s =
    s\<lparr>current_index := (current_index s + 1) mod int (length fdf), reveal := False\<rparr>"

subsection \<open>The three pages\<close>

text \<open>
  The loop over the rows of the Browse page. Each row creates the button with key
  \<open>browse_bm_ID\<close>; \<open>st.button\<close> raises when a key is used a second time in a run. The
  result is \<open>None\<close> when the loop runs to its end.
\<close>

fun browse_rows :: "int list \<Rightarrow> question list \<Rightarrow> click \<Rightarrow> session \<Rightarrow> outcome option" where
  "browse_rows keys [] c s = None"
| "browse_rows keys (row # rest) c s =
    (if ID row \<in> set keys then Some (Raised DuplicateWidgetID)
     else if c = BrowseBm (ID row) then Some (toggle_bookmark (ID row) s)
     else browse_rows (ID row # keys) rest c s)"

definition browse_page :: "question list \<Rightarrow> string \<Rightarrow> click \<Rightarrow> session \<Rightarrow> outcome" where
  "browse_page fdf q c s =
    (case display_df fdf q of
       Raises e \<Rightarrow> Raised e
     | Unmodelled \<Rightarrow> OutOfModel
     | Ok ddf \<Rightarrow>
         (case browse_rows [] ddf c s of
            Some out \<Rightarrow> out
          | None \<Rightarrow> Done s (BrowseList ddf)))"

definition flashcards_page :: "question list \<Rightarrow> click \<Rightarrow> session \<Rightarrow> outcome" where
  "flashcards_page fdf c s =
    (if fdf = [] then Done s NoQuestions
     else
       let s1 = clamp fdf s in
       case iloc fdf (current_index s1) of
         Inl e \<Rightarrow> Raised e
       | Inr current_q \<Rightarrow>
           (case c of
              Previous \<Rightarrow> Rerun (press_previous fdf s1)
            | RandomQuestion r \<Rightarrow> Rerun (press_random r s1)
            | Next \<Rightarrow> Rerun (press_next fdf s1)
            | FlashBm \<Rightarrow> toggle_bookmark (ID current_q) s1
            | RevealAnswer \<Rightarrow>
                (let s2 = s1\<lparr>reveal := \<not> reveal s1\<rparr>
                 in Done s2 (Flashcard current_q (reveal s2)))
            | _ \<Rightarrow> Done s1 (Flashcard current_q (reveal s1))))"

text \<open>The loop of the Bookmarks page, with the buttons of keys \<open>rm_ID\<close>.\<close>

fun bookmark_rows :: "int list \<Rightarrow> question list \<Rightarrow> click \<Rightarrow> session \<Rightarrow> outcome option" where
  "bookmark_rows keys [] c s = None"
| "bookmark_rows keys (row # rest) c s =
    (if ID row \<in> set keys then Some (Raised DuplicateWidgetID)
     else if c = RemoveBookmark (ID row) then Some (remove_bookmark (ID row) s)
     else bookmark_rows (ID row # keys) rest c s)"

definition bookmarks_page :: "question list \<Rightarrow> click \<Rightarrow> session \<Rightarrow> outcome" where
  "bookmarks_page df c s =
    (if bookmarks s = {} then Done s NoBookmarks
     else
       let bookmark_df = filter (\<lambda>row. ID row \<in> bookmarks s) df in
       case bookmark_rows [] bookmark_df c s of
         Some out \<Rightarrow> out
       | None \<Rightarrow> Done s (BookmarkList bookmark_df))"

subsection \<open>One run, and the rerun loop\<close>

definition script :: "question list \<Rightarrow> inputs \<Rightarrow> click \<Rightarrow> session \<Rightarrow> outcome" where
  "script df inp c s =
    (if c = ClearBookmarks then Rerun (s\<lparr>bookmarks := {}\<rparr>)
     else
       let fdf = filtered_df df (selected_categories inp) in
       case mode inp of
         Browse \<Rightarrow> browse_page fdf (search_query inp) c s
       | Flashcards \<Rightarrow> flashcards_page fdf c s
       | Bookmarks \<Rightarrow> bookmarks_page df c s)"

text \<open>
  \<open>st.rerun()\<close> starts the script again with the same widget values and no button
  pressed, until a run completes or raises.
\<close>

partial_function (option) run :: "question list \<Rightarrow> inputs \<Rightarrow> click \<Rightarrow> session \<Rightarrow> outcome option"
where
  "run df inp c s =
    (case script df inp c s of
       Rerun s' \<Rightarrow> run df inp NoClick s'
     | Done s' v \<Rightarrow> Some (Done s' v)
     | Raised e \<Rightarrow> Some (Raised e)
     | OutOfModel \<Rightarrow> Some OutOfModel)"

text \<open>
  The whole file in one run: \<open>df = load_data()\<close>, whose exception propagates, then the
  sidebar, which reads \<open>df['Category']\<close> before anything else and raises \<open>KeyError\<close> on a
  frame without that column, then the script over the rows.
\<close>

definition app :: "source \<Rightarrow> inputs \<Rightarrow> click \<Rightarrow> session \<Rightarrow> outcome" where
  "app src inp c s =
    (case load_data src of
       Inl e \<Rightarrow> Raised e
     | Inr (df, msgs, src') \<Rightarrow>
         if ''Category'' \<notin> set (columns df) then Raised (KeyError (Col ''Category''))
         else script (rows df) inp c s)"

text \<open>
  \<open>random.randint(0, len(filtered_df) - 1)\<close> returns a position of the view; a click is
  well-formed when the value it carries for that call is one.
\<close>

fun randint_ok :: "question list \<Rightarrow> click \<Rightarrow> bool" where
  "randint_ok fdf (RandomQuestion r) = (0 \<le> r \<and> r < int (length fdf))"
| "randint_ok fdf c = True"

text \<open>The records a page lists.\<close>

fun rows_shown :: "view \<Rightarrow> question list" where
  "rows_shown (BrowseList rs) = rs"
| "rows_shown NoQuestions = []"
| "rows_shown (Flashcard q shown) = [q]"
| "rows_shown NoBookmarks = []"
| "rows_shown (BookmarkList rs) = rs"

text \<open>The session state a run leaves behind, if it did not raise.\<close>

fun outcome_session :: "outcome \<Rightarrow> session option" where
  "outcome_session (Rerun s) = Some s"
| "outcome_session (Done s v) = Some s"
| "outcome_session (Raised e) = None"
| "outcome_session OutOfModel = None"

text \<open>The three navigation buttons of the Flashcards page.\<close>

fun navigation :: "click \<Rightarrow> bool" where
  "navigation Previous = True"
| "navigation (RandomQuestion r) = True"
| "navigation Next = True"
| "navigation c = False"

section \<open>Basic facts about the pages\<close>

lemma iloc_in_range: "0 \<le> i \<Longrightarrow> i < int (length xs) \<Longrightarrow> iloc xs i = Inr (xs ! nat i)"
  by (simp add: iloc_def)

lemma clamp_in_range:
  "fdf \<noteq> [] \<Longrightarrow> 0 \<le> current_index s \<Longrightarrow>
   0 \<le> current_index (clamp fdf s) \<and> current_index (clamp fdf s) < int (length fdf)"
  by (simp add: clamp_def)

lemma clamp_id: "current_index s < int (length fdf) \<Longrightarrow> clamp fdf s = s"
  by (simp add: clamp_def)

lemma clamp_fields [simp]:
  "reveal (clamp fdf s) = reveal s" "bookmarks (clamp fdf s) = bookmarks s"
  by (simp_all add: clamp_def)

lemma remove_bookmark_present:
  "i \<in> bookmarks s \<Longrightarrow> remove_bookmark i s = Rerun (s\<lparr>bookmarks := bookmarks s - {i}\<rparr>)"
  by (simp add: remove_bookmark_def set_remove_def)

lemma toggle_bookmark_Rerun:
  "toggle_bookmark i s =
     Rerun (s\<lparr>bookmarks := (if i \<in> bookmarks s then bookmarks s - {i} else insert i (bookmarks s))\<rparr>)"
  by (simp add: toggle_bookmark_def remove_bookmark_present set_add_def)

lemma flashcards_page_eq:
  assumes "fdf \<noteq> []" and "0 \<le> current_index s"
  shows "flashcards_page fdf c s =
    (let s1 = clamp fdf s; current_q = fdf ! nat (current_index s1) in
     case c of
       Previous \<Rightarrow> Rerun (press_previous fdf s1)
     | RandomQuestion r \<Rightarrow> Rerun (press_random r s1)
     | Next \<Rightarrow> Rerun (press_next fdf s1)
     | FlashBm \<Rightarrow> toggle_bookmark (ID current_q) s1
     | RevealAnswer \<Rightarrow> Done (s1\<lparr>reveal := \<not> reveal s1\<rparr>) (Flashcard current_q (\<not> reveal s1))
     | _ \<Rightarrow> Done s1 (Flashcard current_q (reveal s1)))"
proof -
  have "iloc fdf (current_index (clamp fdf s)) = Inr (fdf ! nat (current_index (clamp fdf s)))"
    using clamp_in_range [OF assms] by (simp add: iloc_in_range)
  then show ?thesis
    using assms(1) by (simp add: flashcards_page_def Let_def split: click.split)
qed

lemma browse_rows_NoClick:
  "browse_rows keys rs NoClick s = None \<or>
   browse_rows keys rs NoClick s = Some (Raised DuplicateWidgetID)"
  by (induction rs arbitrary: keys) auto

lemma bookmark_rows_NoClick:
  "bookmark_rows keys rs NoClick s = None \<or>
   bookmark_rows keys rs NoClick s = Some (Raised DuplicateWidgetID)"
  by (induction rs arbitrary: keys) auto

lemma browse_rows_distinct:
  "distinct (map ID rs) \<Longrightarrow> set keys \<inter> ID ` set rs = {} \<Longrightarrow>
   browse_rows keys rs NoClick s = None"
  by (induction rs arbitrary: keys) auto

lemma bookmark_rows_distinct:
  "distinct (map ID rs) \<Longrightarrow> set keys \<inter> ID ` set rs = {} \<Longrightarrow>
   bookmark_rows keys rs NoClick s = None"
  by (induction rs arbitrary: keys) auto

lemma browse_page_NoClick_not_Rerun: "browse_page fdf q NoClick s \<noteq> Rerun s'"
proof (cases "display_df fdf q")
  case (Ok ddf)
  then show ?thesis
    using browse_rows_NoClick [of "[]" ddf s] by (auto simp: browse_page_def)
qed (simp_all add: browse_page_def)

lemma flashcards_page_NoClick_not_Rerun: "flashcards_page fdf NoClick s \<noteq> Rerun s'"
  by (simp add: flashcards_page_def Let_def split: sum.split)

lemma bookmarks_page_NoClick_not_Rerun: "bookmarks_page df NoClick s \<noteq> Rerun s'"
  using bookmark_rows_NoClick [of "[]" "filter (\<lambda>row. ID row \<in> bookmarks s) df" s]
  by (auto simp: bookmarks_page_def Let_def)

lemma script_NoClick_not_Rerun: "script df inp NoClick s \<noteq> Rerun s'"
  by (simp add: script_def Let_def browse_page_NoClick_not_Rerun
      flashcards_page_NoClick_not_Rerun bookmarks_page_NoClick_not_Rerun split: mode.split)

lemma run_eq:
  "run df inp c s =
    Some (case script df inp c s of Rerun s' \<Rightarrow> script df inp NoClick s' | out \<Rightarrow> out)"
proof (cases "script df inp c s")
  case (Rerun s')
  have "run df inp NoClick s' = Some (script df inp NoClick s')"
    using script_NoClick_not_Rerun [of df inp s']
    by (subst run.simps) (simp split: outcome.split)
  with Rerun show ?thesis by (subst run.simps) simp
qed (simp_all add: run.simps)

lemma iloc_no_KeyError: "iloc xs i \<noteq> Inl (KeyError k)"
  by (simp add: iloc_def)

lemma re_compile_no_KeyError: "re_compile q \<noteq> Raises (KeyError k)"
  by (auto simp: re_compile_def split: list.split)

lemma display_df_no_KeyError: "display_df fdf q \<noteq> Raises (KeyError k)"
  using re_compile_no_KeyError [of q k]
  by (auto simp: display_df_def split: result.split)

lemma browse_rows_no_KeyError: "browse_rows keys rs c s \<noteq> Some (Raised (KeyError k))"
  by (induction rs arbitrary: keys) (simp_all add: toggle_bookmark_Rerun)

lemma browse_page_no_KeyError: "browse_page fdf q c s \<noteq> Raised (KeyError k)"
  using display_df_no_KeyError [of fdf q k] browse_rows_no_KeyError [of _ _ c s k]
  by (auto simp: browse_page_def split: result.split option.split)

lemma flashcards_page_no_KeyError: "flashcards_page fdf c s \<noteq> Raised (KeyError k)"
  using iloc_no_KeyError [of fdf "current_index (clamp fdf s)" k]
  by (auto simp: flashcards_page_def Let_def toggle_bookmark_Rerun split: sum.split click.split)

lemma bookmark_rows_no_KeyError:
  "\<forall>row \<in> set rs. ID row \<in> bookmarks s \<Longrightarrow>
   bookmark_rows keys rs c s \<noteq> Some (Raised (KeyError k))"
  by (induction rs arbitrary: keys) (simp_all add: remove_bookmark_present)

lemma bookmarks_page_no_KeyError: "bookmarks_page df c s \<noteq> Raised (KeyError k)"
proof -
  have "bookmark_rows [] (filter (\<lambda>row. ID row \<in> bookmarks s) df) c s \<noteq> Some (Raised (KeyError k))"
    by (rule bookmark_rows_no_KeyError) simp
  then show ?thesis
    by (auto simp: bookmarks_page_def Let_def split: option.split)
qed

lemma script_no_KeyError: "script df inp c s \<noteq> Raised (KeyError k)"
  by (simp add: script_def Let_def browse_page_no_KeyError flashcards_page_no_KeyError
      bookmarks_page_no_KeyError split: mode.split)

lemma script_flashcards:
  assumes "mode inp = Flashcards" and "c \<noteq> ClearBookmarks"
  shows "script df inp c s = flashcards_page (filtered_df df (selected_categories inp)) c s"
  using assms by (simp add: script_def)

lemma flashcards_page_show:
  assumes "fdf \<noteq> []" and "0 \<le> current_index s"
  shows "flashcards_page fdf NoClick s =
    Done (clamp fdf s) (Flashcard (fdf ! nat (current_index (clamp fdf s))) (reveal s))"
  by (simp add: flashcards_page_eq [OF assms] Let_def)

lemma press_next_in_range:
  "fdf \<noteq> [] \<Longrightarrow> 0 \<le> current_index (press_next fdf s) \<and>
     current_index (press_next fdf s) < int (length fdf)"
  by (simp add: press_next_def)

lemma press_previous_in_range:
  "fdf \<noteq> [] \<Longrightarrow> 0 \<le> current_index (press_previous fdf s) \<and>
     current_index (press_previous fdf s) < int (length fdf)"
  by (simp add: press_previous_def)

lemma run_shows_card:
  assumes "mode inp = Flashcards" and "filtered_df df (selected_categories inp) = fdf"
    and "script df inp c s = Rerun s'"
    and "0 \<le> current_index s'" and "current_index s' < int (length fdf)"
  shows "run df inp c s = Some (Done s' (Flashcard (fdf ! nat (current_index s')) (reveal s')))"
proof -
  have ne: "fdf \<noteq> []" using assms(4,5) by auto
  have "script df inp NoClick s' = flashcards_page fdf NoClick s'"
    using assms(1,2) by (simp add: script_flashcards)
  also have "\<dots> = Done (clamp fdf s')
      (Flashcard (fdf ! nat (current_index (clamp fdf s'))) (reveal s'))"
    by (rule flashcards_page_show [OF ne assms(4)])
  also have "clamp fdf s' = s'" using assms(5) by (rule clamp_id)
  finally show ?thesis by (simp add: run_eq assms(3))
qed

section \<open>The search filter against its specification\<close>

text \<open>
  On a query without regular-expression operators the two filters of the Browse page
  return the records that satisfy the category predicate and the text predicate of the
  specification, in table order.
\<close>

lemma match_here_Lit: "match_here (map Lit q) s = prefix (map lower q) (map lower s)"
proof (induction q arbitrary: s)
  case Nil
  show ?case by simp
next
  case (Cons a q)
  show ?case by (cases s) (simp_all add: Cons.IH)
qed

lemma re_search_Lit: "re_search (map Lit q) s = ci_substring q s"
proof (induction s)
  case Nil
  show ?case by (simp add: ci_substring_def match_here_Lit)
next
  case (Cons c s)
  then show ?case
    by (simp add: ci_substring_def match_here_Lit sublist_Cons_right)
qed

lemma plain_compile:
  assumes "plain q"
  shows "re_compile q = Ok (map Lit q)"
proof (cases q)
  case Nil
  then show ?thesis by (simp add: re_compile_def)
next
  case (Cons c cs)
  have ns: "\<forall>x \<in> set q. x \<notin> set special_chars"
    using assms by (simp add: plain_def list_all_iff)
  then have "c \<notin> set special_chars" using Cons by simp
  then have c: "c \<notin> set repeat_chars"
    by (auto simp: special_chars_def repeat_chars_def)
  have dot: "\<forall>x \<in> set q. x \<noteq> CHR ''.''"
    using ns by (auto simp: special_chars_def)
  then have m: "map to_atom q = map Lit q"
    by (simp add: to_atom_def)
  have "list_all (\<lambda>c. c = CHR ''.'' \<or> c \<notin> set special_chars) q"
    using ns by (simp add: list_all_iff)
  then show ?thesis
    using c m Cons by (simp add: re_compile_def)
qed

lemma filter_plain_query:
  assumes "plain q"
  shows "filter_view T C q = Ok (spec_filter T C q)"
proof -
  have cat: "filtered_df T C = filter (category_pred C) T"
  proof (cases "C = []")
    case True
    then show ?thesis by (simp add: filtered_df_def category_pred_def)
  next
    case False
    then have "category_pred C = (\<lambda>row. Category row \<in> set C)"
      by (simp add: category_pred_def fun_eq_iff)
    with False show ?thesis by (simp add: filtered_df_def)
  qed
  show ?thesis
  proof (cases "q = []")
    case True
    then show ?thesis
      by (simp add: filter_view_def display_df_def cat spec_filter_def text_pred_def)
  next
    case False
    then show ?thesis
      by (simp add: filter_view_def display_df_def cat spec_filter_def text_pred_def
          plain_compile [OF assms] re_search_Lit conj_commute)
  qed
qed

lemma browse_shows_spec_filter:
  assumes "plain q" and "distinct (map ID T)" and "mode inp = Browse"
    and "selected_categories inp = C" and "search_query inp = q"
  shows "script T inp NoClick s = Done s (BrowseList (spec_filter T C q))"
proof -
  have "distinct (map ID (spec_filter T C q))"
    unfolding spec_filter_def using assms(2) by (rule distinct_map_filter)
  then have "browse_rows [] (spec_filter T C q) NoClick s = None"
    by (simp add: browse_rows_distinct)
  moreover have "display_df (filtered_df T C) q = Ok (spec_filter T C q)"
    using filter_plain_query [OF assms(1), of T C] by (simp add: filter_view_def)
  ultimately show ?thesis
    using assms(3,4,5) by (simp add: script_def browse_page_def)
qed

lemma eq_char_of_iff: "c = char_of n \<longleftrightarrow> of_char c = take_bit 8 (n::nat)"
  using char_of_eq_iff [of n c] by auto

text \<open>
  Claim C1. For every table, category set and query the filter returns exactly the
  records that satisfy the category predicate and the text predicate (the query is empty
  or a case-insensitive substring of the question or of the answer), in table order.
  The code does not do this for a query with regular-expression operators: on the demo
  table the query \<open>R.act\<close> returns record 1, although \<open>r.act\<close> is a substring of no field,
  and the query \<open>?\<close>, a substring of three questions, makes \<open>re.compile\<close> raise.
\<close>

theorem search_regex_divergence:
  "filter_view demo_rows [] ''R.act'' = Ok [demo_rows ! 0]
   \<and> spec_filter demo_rows [] ''R.act'' = []
   \<and> filter_view demo_rows [] ''?'' = Raises ReError
   \<and> spec_filter demo_rows [] ''?'' = take 3 demo_rows"
proof -
  have a: "filter_view demo_rows [] ''R.act'' = Ok [demo_rows ! 0]"
    by (simp add: filter_view_def display_df_def filtered_df_def re_compile_def
        repeat_chars_def special_chars_def to_atom_def demo_rows_def lower_def
        char_of_eq_iff eq_char_of_iff)
  have b: "spec_filter demo_rows [] ''R.act'' = []"
    by (simp add: spec_filter_def category_pred_def text_pred_def ci_substring_def
        demo_rows_def lower_def sublist_Cons_right char_of_eq_iff eq_char_of_iff)
  have c: "filter_view demo_rows [] ''?'' = Raises ReError"
    by (simp add: filter_view_def display_df_def filtered_df_def re_compile_def
        repeat_chars_def)
  have d: "spec_filter demo_rows [] ''?'' = take 3 demo_rows"
    by (simp add: spec_filter_def category_pred_def text_pred_def ci_substring_def
        demo_rows_def lower_def sublist_Cons_right char_of_eq_iff eq_char_of_iff)
  from a b c d show ?thesis by blast
qed

section \<open>The clamp of the cursor\<close>

lemma flashcards_run_in_range:
  assumes m: "mode inp = Flashcards" and f: "filtered_df df (selected_categories inp) = fdf"
    and ne: "fdf \<noteq> []" and nn: "0 \<le> current_index s" and ok: "randint_ok fdf c"
  shows "\<exists>s' shown. run df inp c s = Some (Done s' (Flashcard (fdf ! nat (current_index s')) shown))
           \<and> 0 \<le> current_index s' \<and> current_index s' < int (length fdf)"
proof -
  let ?s1 = "clamp fdf s"
  have r1: "0 \<le> current_index ?s1 \<and> current_index ?s1 < int (length fdf)"
    by (rule clamp_in_range [OF ne nn])
  have rerun: ?thesis
    if "script df inp c s = Rerun s'" and "0 \<le> current_index s'"
      and "current_index s' < int (length fdf)" for s'
    using run_shows_card [OF m f that] that(2,3) by blast
  have fin: ?thesis
    if "script df inp c s = Done s' (Flashcard (fdf ! nat (current_index s')) shown)"
      and "0 \<le> current_index s'" and "current_index s' < int (length fdf)" for s' shown
    using that by (auto simp: run_eq)
  show ?thesis
  proof (cases "c = ClearBookmarks")
    case True
    let ?s2 = "s\<lparr>bookmarks := {}\<rparr>"
    have nn2: "0 \<le> current_index ?s2" using nn by simp
    have "script df inp c s = Rerun ?s2"
      using True by (simp add: script_def)
    then have "run df inp c s = Some (script df inp NoClick ?s2)"
      by (simp add: run_eq)
    also have "script df inp NoClick ?s2 = flashcards_page fdf NoClick ?s2"
      using m f by (simp add: script_flashcards)
    also have "\<dots> = Done (clamp fdf ?s2)
        (Flashcard (fdf ! nat (current_index (clamp fdf ?s2))) (reveal ?s2))"
      by (rule flashcards_page_show [OF ne nn2])
    finally show ?thesis
      using clamp_in_range [OF ne nn2] by blast
  next
    case False
    then have pg: "script df inp c s = flashcards_page fdf c s"
      using m f by (simp add: script_flashcards)
    note eq = flashcards_page_eq [OF ne nn, of c]
    show ?thesis
    proof (cases c)
      case NoClick
      with pg eq have "script df inp c s = Done ?s1 (Flashcard (fdf ! nat (current_index ?s1)) (reveal ?s1))"
        by (simp add: Let_def)
      with r1 show ?thesis by (blast intro: fin)
    next
      case ClearBookmarks
      with False show ?thesis by simp
    next
      case (BrowseBm i)
      with pg eq have "script df inp c s = Done ?s1 (Flashcard (fdf ! nat (current_index ?s1)) (reveal ?s1))"
        by (simp add: Let_def)
      with r1 show ?thesis by (blast intro: fin)
    next
      case Previous
      with pg eq have "script df inp c s = Rerun (press_previous fdf ?s1)"
        by (simp add: Let_def)
      with press_previous_in_range [OF ne] show ?thesis by (blast intro: rerun)
    next
      case (RandomQuestion r)
      with pg eq have "script df inp c s = Rerun (press_random r ?s1)"
        by (simp add: Let_def)
      moreover have "current_index (press_random r ?s1) = r"
        by (simp add: press_random_def)
      moreover have "0 \<le> r \<and> r < int (length fdf)"
        using ok RandomQuestion by simp
      ultimately show ?thesis
        using rerun [of "press_random r ?s1"] by simp
    next
      case Next
      with pg eq have "script df inp c s = Rerun (press_next fdf ?s1)"
        by (simp add: Let_def)
      with press_next_in_range [OF ne] show ?thesis by (blast intro: rerun)
    next
      case FlashBm
      let ?i = "ID (fdf ! nat (current_index ?s1))"
      let ?s2 = "?s1\<lparr>bookmarks :=
        (if ?i \<in> bookmarks ?s1 then bookmarks ?s1 - {?i} else insert ?i (bookmarks ?s1))\<rparr>"
      from FlashBm pg eq have "script df inp c s = Rerun ?s2"
        by (simp add: Let_def toggle_bookmark_Rerun)
      moreover have "current_index ?s2 = current_index ?s1" by simp
      ultimately show ?thesis
        using r1 rerun [of ?s2] by simp
    next
      case RevealAnswer
      let ?s2 = "?s1\<lparr>reveal := \<not> reveal ?s1\<rparr>"
      from RevealAnswer pg eq
      have "script df inp c s = Done ?s2 (Flashcard (fdf ! nat (current_index ?s1)) (\<not> reveal ?s1))"
        by (simp add: Let_def)
      moreover have "current_index ?s2 = current_index ?s1" by simp
      ultimately show ?thesis
        using r1 fin [of ?s2 "\<not> reveal ?s1"] by simp
    next
      case Hard
      with pg eq have "script df inp c s = Done ?s1 (Flashcard (fdf ! nat (current_index ?s1)) (reveal ?s1))"
        by (simp add: Let_def)
      with r1 show ?thesis by (blast intro: fin)
    next
      case Okay
      with pg eq have "script df inp c s = Done ?s1 (Flashcard (fdf ! nat (current_index ?s1)) (reveal ?s1))"
        by (simp add: Let_def)
      with r1 show ?thesis by (blast intro: fin)
    next
      case Easy
      with pg eq have "script df inp c s = Done ?s1 (Flashcard (fdf ! nat (current_index ?s1)) (reveal ?s1))"
        by (simp add: Let_def)
      with r1 show ?thesis by (blast intro: fin)
    next
      case (RemoveBookmark i)
      with pg eq have "script df inp c s = Done ?s1 (Flashcard (fdf ! nat (current_index ?s1)) (reveal ?s1))"
        by (simp add: Let_def)
      with r1 show ?thesis by (blast intro: fin)
    qed
  qed
qed

lemma browse_rows_cursor:
  "browse_rows keys rs c s = Some out \<Longrightarrow> outcome_session out = Some s' \<Longrightarrow>
   current_index s' = current_index s"
  by (induction rs arbitrary: keys) (auto simp: toggle_bookmark_Rerun split: if_splits)

lemma bookmark_rows_cursor:
  "bookmark_rows keys rs c s = Some out \<Longrightarrow> outcome_session out = Some s' \<Longrightarrow>
   current_index s' = current_index s"
  by (induction rs arbitrary: keys)
    (auto simp: remove_bookmark_def set_remove_def split: if_splits)

lemma browse_page_cursor:
  assumes "outcome_session (browse_page fdf q c s) = Some s'"
  shows "current_index s' = current_index s"
proof (cases "display_df fdf q")
  case (Ok ddf)
  show ?thesis
  proof (cases "browse_rows [] ddf c s")
    case None
    with Ok assms show ?thesis by (simp add: browse_page_def)
  next
    case (Some out)
    with Ok assms have "outcome_session out = Some s'" by (simp add: browse_page_def)
    with Some show ?thesis by (rule browse_rows_cursor)
  qed
next
  case (Raises e)
  with assms show ?thesis by (simp add: browse_page_def)
next
  case Unmodelled
  with assms show ?thesis by (simp add: browse_page_def)
qed

lemma bookmarks_page_cursor:
  assumes "outcome_session (bookmarks_page df c s) = Some s'"
  shows "current_index s' = current_index s"
proof (cases "bookmarks s = {}")
  case True
  with assms show ?thesis by (simp add: bookmarks_page_def)
next
  case False
  let ?rs = "filter (\<lambda>row. ID row \<in> bookmarks s) df"
  show ?thesis
  proof (cases "bookmark_rows [] ?rs c s")
    case None
    with False assms show ?thesis by (simp add: bookmarks_page_def Let_def)
  next
    case (Some out)
    with False assms have "outcome_session out = Some s'"
      by (simp add: bookmarks_page_def Let_def)
    with Some show ?thesis by (rule bookmark_rows_cursor)
  qed
qed

lemma script_cursor_elsewhere:
  assumes "mode inp \<noteq> Flashcards \<or> filtered_df df (selected_categories inp) = []"
    and "outcome_session (script df inp c s) = Some s'"
  shows "current_index s' = current_index s"
proof (cases "c = ClearBookmarks")
  case True
  with assms(2) show ?thesis by (auto simp: script_def)
next
  case False
  show ?thesis
  proof (cases "mode inp")
    case Browse
    with False assms(2) show ?thesis
      by (simp add: script_def Let_def browse_page_cursor)
  next
    case Flashcards
    with assms(1) have "filtered_df df (selected_categories inp) = []" by simp
    with Flashcards False assms(2) show ?thesis
      by (auto simp: script_def flashcards_page_def)
  next
    case Bookmarks
    with False assms(2) show ?thesis
      by (simp add: script_def Let_def bookmarks_page_cursor)
  qed
qed

lemma run_cursor_elsewhere:
  assumes e: "mode inp \<noteq> Flashcards \<or> filtered_df df (selected_categories inp) = []"
    and r: "run df inp c s = Some out" and o: "outcome_session out = Some s'"
  shows "current_index s' = current_index s"
proof (cases "script df inp c s")
  case (Rerun s1)
  then have s1: "current_index s1 = current_index s"
    using script_cursor_elsewhere [OF e, of c s s1] by simp
  from Rerun r have "out = script df inp NoClick s1" by (simp add: run_eq)
  with o have "current_index s' = current_index s1"
    using script_cursor_elsewhere [OF e, of NoClick s1 s'] by simp
  with s1 show ?thesis by simp
next
  case (Done s1 v)
  with r have "out = script df inp c s" by (simp add: run_eq)
  with o show ?thesis using script_cursor_elsewhere [OF e, of c s s'] by simp
next
  case (Raised x)
  with r have "out = Raised x" by (simp add: run_eq)
  with o show ?thesis by simp
next
  case OutOfModel
  with r have "out = OutOfModel" by (simp add: run_eq)
  with o show ?thesis by simp
qed

text \<open>
  Claim C2, as amended. On the Flashcards page and over a non-empty filtered view of length
  \<open>m\<close>, a run sets a cursor \<open>k \<ge> m\<close> to 0 and keeps a cursor \<open>k < m\<close>, before it reads
  the record, so the record shown is the one at an index inside the view; and whatever
  button is pressed, the completed run ends with the cursor inside the view. On the other
  pages, and on the Flashcards page over an empty view, every run leaves the cursor as it
  was.
\<close>

theorem clamp_on_flashcards:
  assumes "filtered_df df (selected_categories inp) = fdf"
  shows "(mode inp = Flashcards \<and> fdf \<noteq> [] \<and> 0 \<le> current_index s \<longrightarrow>
           script df inp NoClick s =
             Done (clamp fdf s) (Flashcard (fdf ! nat (current_index (clamp fdf s))) (reveal s))
         \<and> current_index (clamp fdf s) =
             (if int (length fdf) \<le> current_index s then 0 else current_index s)
         \<and> 0 \<le> current_index (clamp fdf s)
         \<and> current_index (clamp fdf s) < int (length fdf)
         \<and> (randint_ok fdf c \<longrightarrow>
              (\<exists>s' shown.
                 run df inp c s = Some (Done s' (Flashcard (fdf ! nat (current_index s')) shown))
                 \<and> 0 \<le> current_index s' \<and> current_index s' < int (length fdf))))
       \<and> (mode inp \<noteq> Flashcards \<or> fdf = [] \<longrightarrow>
           (\<forall>s'. outcome_session (script df inp c s) = Some s' \<longrightarrow>
                 current_index s' = current_index s)
         \<and> (\<forall>out s'. run df inp c s = Some out \<and> outcome_session out = Some s' \<longrightarrow>
                 current_index s' = current_index s))"
proof -
  have flash: "script df inp NoClick s =
             Done (clamp fdf s) (Flashcard (fdf ! nat (current_index (clamp fdf s))) (reveal s))
         \<and> current_index (clamp fdf s) =
             (if int (length fdf) \<le> current_index s then 0 else current_index s)
         \<and> 0 \<le> current_index (clamp fdf s)
         \<and> current_index (clamp fdf s) < int (length fdf)
         \<and> (randint_ok fdf c \<longrightarrow>
              (\<exists>s' shown.
                 run df inp c s = Some (Done s' (Flashcard (fdf ! nat (current_index s')) shown))
                 \<and> 0 \<le> current_index s' \<and> current_index s' < int (length fdf)))"
    if m: "mode inp = Flashcards" and ne: "fdf \<noteq> []" and nn: "0 \<le> current_index s"
  proof -
    have "script df inp NoClick s = flashcards_page fdf NoClick s"
      using m assms by (simp add: script_flashcards)
    then have a: "script df inp NoClick s =
        Done (clamp fdf s) (Flashcard (fdf ! nat (current_index (clamp fdf s))) (reveal s))"
      by (simp add: flashcards_page_show [OF ne nn])
    have b: "current_index (clamp fdf s) =
        (if int (length fdf) \<le> current_index s then 0 else current_index s)"
      by (simp add: clamp_def)
    have c: "\<exists>s' shown.
        run df inp c s = Some (Done s' (Flashcard (fdf ! nat (current_index s')) shown))
        \<and> 0 \<le> current_index s' \<and> current_index s' < int (length fdf)"
      if "randint_ok fdf c"
      by (rule flashcards_run_in_range [OF m assms ne nn that])
    from a b c clamp_in_range [OF ne nn] show ?thesis by blast
  qed
  have other: "(\<forall>s'. outcome_session (script df inp c s) = Some s' \<longrightarrow>
                 current_index s' = current_index s)
         \<and> (\<forall>out s'. run df inp c s = Some out \<and> outcome_session out = Some s' \<longrightarrow>
                 current_index s' = current_index s)"
    if "mode inp \<noteq> Flashcards \<or> fdf = []"
  proof -
    have e: "mode inp \<noteq> Flashcards \<or> filtered_df df (selected_categories inp) = []"
      using that assms by simp
    show ?thesis
      using script_cursor_elsewhere [OF e] run_cursor_elsewhere [OF e] by blast
  qed
  from flash other show ?thesis by blast
qed

theorem clamp_on_flashcards_witness:
  "script demo_rows \<lparr>mode = Flashcards, selected_categories = [''Hooks''], search_query = []\<rparr>
      NoClick \<lparr>bookmarks = {}, current_index = 4, reveal = False, random_mode = False\<rparr>
     = Done \<lparr>bookmarks = {}, current_index = 0, reveal = False, random_mode = False\<rparr>
         (Flashcard (demo_rows ! 1) False)
   \<and> (\<exists>s'. outcome_session
          (script demo_rows \<lparr>mode = Browse, selected_categories = [''Hooks''], search_query = []\<rparr>
             NoClick \<lparr>bookmarks = {}, current_index = 4, reveal = False, random_mode = False\<rparr>)
          = Some s' \<and> current_index s' = 4)"
proof -
  let ?inp = "\<lparr>mode = Flashcards, selected_categories = [''Hooks''], search_query = []\<rparr>"
  let ?inb = "\<lparr>mode = Browse, selected_categories = [''Hooks''], search_query = []\<rparr>"
  let ?s = "\<lparr>bookmarks = {}, current_index = 4, reveal = False, random_mode = False\<rparr>"
  have h1: "mode ?inp = Flashcards" by simp
  have h2: "filtered_df demo_rows (selected_categories ?inp) = [demo_rows ! 1]"
    by (simp add: filtered_df_def demo_rows_def)
  have h3: "[demo_rows ! 1] \<noteq> []" by simp
  have h4: "0 \<le> current_index ?s" by simp
  have e: "clamp [demo_rows ! 1] ?s
      = \<lparr>bookmarks = {}, current_index = 0, reveal = False, random_mode = False\<rparr>"
    by (simp add: clamp_def)
  have "script demo_rows ?inp NoClick ?s =
      Done (clamp [demo_rows ! 1] ?s)
        (Flashcard ([demo_rows ! 1] ! nat (current_index (clamp [demo_rows ! 1] ?s))) (reveal ?s))"
    using clamp_on_flashcards [OF h2, where s = "?s"] h1 h3 h4 by blast
  then have a: "script demo_rows ?inp NoClick ?s
     = Done \<lparr>bookmarks = {}, current_index = 0, reveal = False, random_mode = False\<rparr>
         (Flashcard (demo_rows ! 1) False)"
    by (simp only: e) simp
  have b1: "mode ?inb \<noteq> Flashcards" by simp
  have b2: "filtered_df demo_rows (selected_categories ?inb) = [demo_rows ! 1]"
    by (simp add: filtered_df_def demo_rows_def)
  have b3: "script demo_rows ?inb NoClick ?s = Done ?s (BrowseList [demo_rows ! 1])"
    by (simp add: script_def browse_page_def display_df_def filtered_df_def demo_rows_def)
  have "current_index s' = current_index ?s"
    if "outcome_session (script demo_rows ?inb NoClick ?s) = Some s'" for s'
    using clamp_on_flashcards [OF b2, where s = "?s" and c = NoClick] b1 that by blast
  then have b: "\<exists>s'. outcome_session (script demo_rows ?inb NoClick ?s) = Some s'
      \<and> current_index s' = 4"
    by (simp add: b3)
  from a b show ?thesis by blast
qed

text \<open>
  The claim as stated fails: the clamp belongs to the Flashcards page. Four presses of Next
  on the Flashcards page bring the cursor to 4; a run of the Browse page with the category
  \<open>Basics\<close> selected then recomputes a view of length 1 and leaves the cursor at 4.
\<close>

theorem clamp_counterexample:
  "(press_next demo_rows ^^ 4) initial_session
     = \<lparr>bookmarks = {}, current_index = 4, reveal = False, random_mode = False\<rparr>
   \<and> script demo_rows \<lparr>mode = Browse, selected_categories = [''Basics''], search_query = []\<rparr>
        NoClick \<lparr>bookmarks = {}, current_index = 4, reveal = False, random_mode = False\<rparr>
     = Done \<lparr>bookmarks = {}, current_index = 4, reveal = False, random_mode = False\<rparr>
         (BrowseList (filtered_df demo_rows [''Basics'']))
   \<and> length (filtered_df demo_rows [''Basics'']) = 1"
proof -
  have len: "int (length demo_rows) = 5" by (simp add: demo_rows_def)
  have a: "(press_next demo_rows ^^ 4) initial_session
     = \<lparr>bookmarks = {}, current_index = 4, reveal = False, random_mode = False\<rparr>"
    by (simp add: eval_nat_numeral press_next_def len initial_session_def)
  have b: "script demo_rows \<lparr>mode = Browse, selected_categories = [''Basics''], search_query = []\<rparr>
        NoClick \<lparr>bookmarks = {}, current_index = 4, reveal = False, random_mode = False\<rparr>
     = Done \<lparr>bookmarks = {}, current_index = 4, reveal = False, random_mode = False\<rparr>
         (BrowseList (filtered_df demo_rows [''Basics'']))"
    by (simp add: script_def browse_page_def display_df_def filtered_df_def demo_rows_def)
  have c: "length (filtered_df demo_rows [''Basics'']) = 1"
    by (simp add: filtered_df_def demo_rows_def)
  from a b c show ?thesis by blast
qed

section \<open>The reveal flag\<close>

text \<open>
  Claim C3. Whatever the reveal flag was, each of Previous, Random Question and Next stores
  False in it as part of its transition, and the run that follows shows the new card with
  the answer hidden.
\<close>

theorem reveal_reset:
  assumes "mode inp = Flashcards" and "filtered_df df (selected_categories inp) = fdf"
    and "fdf \<noteq> []" and "0 \<le> current_index s"
  shows "script df inp Previous s = Rerun (press_previous fdf (clamp fdf s))
       \<and> script df inp (RandomQuestion r) s = Rerun (press_random r (clamp fdf s))
       \<and> script df inp Next s = Rerun (press_next fdf (clamp fdf s))
       \<and> reveal (press_previous fdf (clamp fdf s)) = False
       \<and> reveal (press_random r (clamp fdf s)) = False
       \<and> reveal (press_next fdf (clamp fdf s)) = False
       \<and> (\<exists>q s'. run df inp Previous s = Some (Done s' (Flashcard q False)) \<and> reveal s' = False)
       \<and> (\<exists>q s'. run df inp Next s = Some (Done s' (Flashcard q False)) \<and> reveal s' = False)
       \<and> (0 \<le> r \<and> r < int (length fdf) \<longrightarrow>
            (\<exists>q s'. run df inp (RandomQuestion r) s = Some (Done s' (Flashcard q False))
               \<and> reveal s' = False))"
proof -
  have page: "script df inp c s = flashcards_page fdf c s" if "c \<noteq> ClearBookmarks" for c
    using that assms(1,2) by (simp add: script_flashcards)
  have prv: "script df inp Previous s = Rerun (press_previous fdf (clamp fdf s))"
    by (simp add: page flashcards_page_eq [OF assms(3,4)] Let_def)
  have rnd: "script df inp (RandomQuestion r) s = Rerun (press_random r (clamp fdf s))"
    by (simp add: page flashcards_page_eq [OF assms(3,4)] Let_def)
  have nxt: "script df inp Next s = Rerun (press_next fdf (clamp fdf s))"
    by (simp add: page flashcards_page_eq [OF assms(3,4)] Let_def)
  have rp: "reveal (press_previous fdf (clamp fdf s)) = False"
    by (simp add: press_previous_def)
  have rr: "reveal (press_random r (clamp fdf s)) = False"
    by (simp add: press_random_def)
  have rn: "reveal (press_next fdf (clamp fdf s)) = False"
    by (simp add: press_next_def)
  have runp: "\<exists>q s'. run df inp Previous s = Some (Done s' (Flashcard q False)) \<and> reveal s' = False"
    using run_shows_card [OF assms(1,2) prv] press_previous_in_range [OF assms(3)] rp
    by auto
  have runn: "\<exists>q s'. run df inp Next s = Some (Done s' (Flashcard q False)) \<and> reveal s' = False"
    using run_shows_card [OF assms(1,2) nxt] press_next_in_range [OF assms(3)] rn
    by auto
  have runr: "\<exists>q s'. run df inp (RandomQuestion r) s = Some (Done s' (Flashcard q False))
      \<and> reveal s' = False" if "0 \<le> r" and "r < int (length fdf)"
  proof -
    have "current_index (press_random r (clamp fdf s)) = r"
      by (simp add: press_random_def)
    with that run_shows_card [OF assms(1,2) rnd] rr show ?thesis by auto
  qed
  from prv rnd nxt rp rr rn runp runn runr show ?thesis by blast
qed

theorem reveal_reset_witness:
  "script demo_rows \<lparr>mode = Flashcards, selected_categories = [], search_query = []\<rparr> Next
      \<lparr>bookmarks = {}, current_index = 1, reveal = True, random_mode = False\<rparr>
     = Rerun \<lparr>bookmarks = {}, current_index = 2, reveal = False, random_mode = False\<rparr>"
proof -
  let ?inp = "\<lparr>mode = Flashcards, selected_categories = [], search_query = []\<rparr>"
  let ?s = "\<lparr>bookmarks = {}, current_index = 1, reveal = True, random_mode = False\<rparr>"
  have h1: "mode ?inp = Flashcards" by simp
  have h2: "filtered_df demo_rows (selected_categories ?inp) = demo_rows"
    by (simp add: filtered_df_def)
  have h3: "demo_rows \<noteq> []" by (simp add: demo_rows_def)
  have h4: "0 \<le> current_index ?s" by simp
  have e: "press_next demo_rows (clamp demo_rows ?s)
      = \<lparr>bookmarks = {}, current_index = 2, reveal = False, random_mode = False\<rparr>"
    by (simp add: press_next_def clamp_def demo_rows_def)
  have "script demo_rows ?inp Next ?s = Rerun (press_next demo_rows (clamp demo_rows ?s))"
    using reveal_reset [OF h1 h2 h3 h4] by blast
  then show ?thesis by (simp only: e)
qed

section \<open>Cursor wraparound\<close>

lemma press_next_funpow:
  assumes "0 \<le> current_index s" and "current_index s < int (length fdf)"
  shows "current_index ((press_next fdf ^^ k) s) = (current_index s + int k) mod int (length fdf)"
proof (induction k)
  case 0
  show ?case using assms by simp
next
  case (Suc k)
  have "current_index ((press_next fdf ^^ Suc k) s)
      = (current_index ((press_next fdf ^^ k) s) + 1) mod int (length fdf)"
    by (simp add: press_next_def)
  also have "\<dots> = ((current_index s + int k) mod int (length fdf) + 1) mod int (length fdf)"
    by (simp only: Suc.IH)
  also have "\<dots> = ((current_index s + int k) + 1) mod int (length fdf)"
    by (rule mod_add_left_eq)
  also have "\<dots> = (current_index s + int (Suc k)) mod int (length fdf)"
    by (simp add: ac_simps)
  finally show ?case .
qed

lemma press_previous_funpow:
  assumes "0 \<le> current_index s" and "current_index s < int (length fdf)"
  shows "current_index ((press_previous fdf ^^ k) s) = (current_index s - int k) mod int (length fdf)"
proof (induction k)
  case 0
  show ?case using assms by simp
next
  case (Suc k)
  have "current_index ((press_previous fdf ^^ Suc k) s)
      = (current_index ((press_previous fdf ^^ k) s) - 1) mod int (length fdf)"
    by (simp add: press_previous_def)
  also have "\<dots> = ((current_index s - int k) mod int (length fdf) - 1) mod int (length fdf)"
    by (simp only: Suc.IH)
  also have "\<dots> = ((current_index s - int k) - 1) mod int (length fdf)"
    by (rule mod_diff_left_eq)
  also have "\<dots> = (current_index s - int (Suc k)) mod int (length fdf)"
    by (simp add: algebra_simps)
  finally show ?case .
qed

text \<open>
  Claim C4. On the Flashcards page, over a non-empty filtered view of length \<open>n\<close> and with
  the cursor \<open>c\<close> inside the view, the Next button stores \<open>(c + 1) mod n\<close> and the Previous
  button stores \<open>(c - 1 + n) mod n\<close>; pressing either of them \<open>n\<close> times brings the cursor
  back to \<open>c\<close>, and Previous at cursor 0 of a view of length 3 gives 2.
\<close>

theorem cursor_wraparound:
  assumes "fdf \<noteq> []" and "0 \<le> current_index s" and "current_index s < int (length fdf)"
    and "mode inp = Flashcards" and "filtered_df df (selected_categories inp) = fdf"
  shows "script df inp Next s = Rerun (press_next fdf s)
       \<and> script df inp Previous s = Rerun (press_previous fdf s)
       \<and> current_index (press_next fdf s) = (current_index s + 1) mod int (length fdf)
       \<and> current_index (press_previous fdf s)
           = (current_index s - 1 + int (length fdf)) mod int (length fdf)
       \<and> current_index ((press_next fdf ^^ length fdf) s) = current_index s
       \<and> current_index ((press_previous fdf ^^ length fdf) s) = current_index s
       \<and> (length fdf = 3 \<and> current_index s = 0 \<longrightarrow> current_index (press_previous fdf s) = 2)"
proof -
  have page: "script df inp c s = flashcards_page fdf c s" if "c \<noteq> ClearBookmarks" for c
    using that assms(4,5) by (simp add: script_flashcards)
  have cl: "clamp fdf s = s"
    using assms(3) by (rule clamp_id)
  have nxt: "script df inp Next s = Rerun (press_next fdf s)"
    by (simp add: page flashcards_page_eq [OF assms(1,2)] cl)
  have prv: "script df inp Previous s = Rerun (press_previous fdf s)"
    by (simp add: page flashcards_page_eq [OF assms(1,2)] cl)
  have n1: "current_index (press_next fdf s) = (current_index s + 1) mod int (length fdf)"
    by (simp add: press_next_def)
  have p1: "current_index (press_previous fdf s)
      = (current_index s - 1 + int (length fdf)) mod int (length fdf)"
    by (simp add: press_previous_def)
  have nn: "current_index ((press_next fdf ^^ length fdf) s) = current_index s"
    using assms(2,3) by (simp add: press_next_funpow)
  have pn: "current_index ((press_previous fdf ^^ length fdf) s) = current_index s"
    using assms(2,3) by (simp add: press_previous_funpow)
  have sc: "length fdf = 3 \<and> current_index s = 0 \<longrightarrow> current_index (press_previous fdf s) = 2"
    by (simp add: press_previous_def)
  from nxt prv n1 p1 nn pn sc show ?thesis by blast
qed

theorem cursor_wraparound_witness:
  "script (take 3 demo_rows) \<lparr>mode = Flashcards, selected_categories = [], search_query = []\<rparr>
      Previous initial_session = Rerun (press_previous (take 3 demo_rows) initial_session)
   \<and> current_index (press_previous (take 3 demo_rows) initial_session) = 2
   \<and> current_index ((press_next (take 3 demo_rows) ^^ 3) initial_session) = 0
   \<and> current_index ((press_previous (take 3 demo_rows) ^^ 3) initial_session) = 0"
proof -
  let ?T = "take 3 demo_rows"
  let ?inp = "\<lparr>mode = Flashcards, selected_categories = [], search_query = []\<rparr>"
  have len: "length ?T = 3" by (simp add: demo_rows_def)
  have c0: "current_index initial_session = 0" by (simp add: initial_session_def)
  have h1: "?T \<noteq> []" by (simp add: demo_rows_def)
  have h2: "0 \<le> current_index initial_session" by (simp add: c0)
  have h3: "current_index initial_session < int (length ?T)" unfolding c0 len by simp
  have h4: "mode ?inp = Flashcards" by simp
  have h5: "filtered_df ?T (selected_categories ?inp) = ?T" by (simp add: filtered_df_def)
  show ?thesis
    using cursor_wraparound [OF h1 h2 h3 h4 h5] unfolding len c0 by simp
qed

section \<open>Loading the table\<close>

text \<open>
  Claim C5, as amended. When no file is found and the placeholder file can be written,
  \<open>load_data\<close> returns the built-in table of 5 records. When the file is there and lacks
  a required column, \<open>load_data\<close> returns an empty table with the four required columns and
  reports the error. With a file present \<open>load_data\<close> never raises.
\<close>

theorem load_data_fail_soft:
  "load_data (NoFile True) =
     Inr (\<lparr>columns = required_cols, rows = demo_rows\<rparr>, [],
          CsvFile (Inr \<lparr>columns = required_cols, rows = demo_rows\<rparr>))
   \<and> length demo_rows = 5
   \<and> (\<not> list_all (\<lambda>col. col \<in> set (columns df)) required_cols \<longrightarrow>
        load_data (CsvFile (Inr df)) =
          Inr (\<lparr>columns = required_cols, rows = []\<rparr>,
               [''CSV is missing required columns: ID, Category, Question, Answer''],
               CsvFile (Inr df)))
   \<and> (\<exists>r. load_data (CsvFile f) = Inr r)"
proof -
  have a: "load_data (NoFile True) =
     Inr (\<lparr>columns = required_cols, rows = demo_rows\<rparr>, [],
          CsvFile (Inr \<lparr>columns = required_cols, rows = demo_rows\<rparr>))"
    by (simp add: load_data_def create_demo_data_def Let_def)
  have b: "length demo_rows = 5"
    by (simp add: demo_rows_def)
  have c: "load_data (CsvFile (Inr df)) =
          Inr (\<lparr>columns = required_cols, rows = []\<rparr>,
               [''CSV is missing required columns: ID, Category, Question, Answer''],
               CsvFile (Inr df))"
    if "\<not> list_all (\<lambda>col. col \<in> set (columns df)) required_cols"
    using that by (simp add: load_data_def)
  have d: "\<exists>r. load_data (CsvFile f) = Inr r"
    by (cases f) (simp_all add: load_data_def)
  from a b c d show ?thesis by blast
qed

theorem load_data_fail_soft_witness:
  "load_data (CsvFile (Inr \<lparr>columns = [''ID''], rows = []\<rparr>)) =
     Inr (\<lparr>columns = required_cols, rows = []\<rparr>,
          [''CSV is missing required columns: ID, Category, Question, Answer''],
          CsvFile (Inr \<lparr>columns = [''ID''], rows = []\<rparr>))"
proof -
  have "\<not> list_all (\<lambda>col. col \<in> set (columns \<lparr>columns = [''ID''], rows = []\<rparr>)) required_cols"
    by (simp add: required_cols_def)
  then show ?thesis
    using load_data_fail_soft [of "\<lparr>columns = [''ID''], rows = []\<rparr>"] by blast
qed

text \<open>
  The claim as stated fails: a file without the \<open>Answer\<close> column gives the empty table, not
  the placeholder records.
\<close>

theorem load_data_counterexample:
  "load_data (CsvFile (Inr \<lparr>columns = [''ID'', ''Category'', ''Question''], rows = demo_rows\<rparr>))
     = Inr (\<lparr>columns = required_cols, rows = []\<rparr>,
            [''CSV is missing required columns: ID, Category, Question, Answer''],
            CsvFile (Inr \<lparr>columns = [''ID'', ''Category'', ''Question''], rows = demo_rows\<rparr>))
   \<and> demo_rows \<noteq> []"
  by (simp add: load_data_def required_cols_def demo_rows_def)

section \<open>Bookmarks\<close>

lemma bookmark_rows_absent:
  "i \<notin> ID ` set rs \<Longrightarrow>
   bookmark_rows keys rs (RemoveBookmark i) s = bookmark_rows keys rs NoClick s"
  by (induction rs arbitrary: keys) auto

lemma browse_rows_other_click:
  "browse_rows keys rs (RemoveBookmark i) s = browse_rows keys rs NoClick s"
  by (induction rs arbitrary: keys) auto

lemma script_remove_absent:
  assumes "i \<notin> bookmarks s"
  shows "script df inp (RemoveBookmark i) s = script df inp NoClick s"
proof (cases "mode inp")
  case Browse
  then show ?thesis
    by (simp add: script_def browse_page_def browse_rows_other_click split: result.split)
next
  case Flashcards
  then show ?thesis
    by (simp add: script_def flashcards_page_def Let_def split: sum.split)
next
  case Bookmarks
  have "i \<notin> ID ` set (filter (\<lambda>row. ID row \<in> bookmarks s) df)"
    using assms by auto
  with Bookmarks show ?thesis
    by (simp add: script_def bookmarks_page_def Let_def bookmark_rows_absent)
qed

lemma script_NoClick_bookmarks:
  assumes "outcome_session (script df inp NoClick s) = Some s'"
  shows "bookmarks s' = bookmarks s"
proof (cases "mode inp")
  case Browse
  show ?thesis
  proof (cases "display_df (filtered_df df (selected_categories inp)) (search_query inp)")
    case (Ok ddf)
    with Browse assms show ?thesis
      using browse_rows_NoClick [of "[]" ddf s]
      by (auto simp: script_def browse_page_def)
  next
    case (Raises e)
    with Browse assms show ?thesis by (simp add: script_def browse_page_def)
  next
    case Unmodelled
    with Browse assms show ?thesis by (simp add: script_def browse_page_def)
  qed
next
  case Flashcards
  with assms show ?thesis
    by (auto simp: script_def flashcards_page_def Let_def split: if_splits sum.splits)
next
  case Bookmarks
  with assms show ?thesis
    using bookmark_rows_NoClick [of "[]" "filter (\<lambda>row. ID row \<in> bookmarks s) df" s]
    by (auto simp: script_def bookmarks_page_def Let_def split: if_splits)
qed

text \<open>
  A frame that \<open>load_data\<close> returns and that has the \<open>Category\<close> column has all four
  columns, so past the sidebar the script finds every column it reads.
\<close>

lemma loaded_frame_columns:
  assumes "load_data src = Inr (df, msgs, src')" and "''Category'' \<in> set (columns df)"
  shows "list_all (\<lambda>col. col \<in> set (columns df)) required_cols"
proof (cases src)
  case (NoFile w)
  with assms(1) have "columns df = required_cols"
    by (auto simp: load_data_def create_demo_data_def Let_def split: if_splits)
  then show ?thesis by (simp add: list_all_iff)
next
  case (CsvFile f)
  show ?thesis
  proof (cases f)
    case (Inl e)
    with CsvFile assms show ?thesis by (auto simp: load_data_def)
  next
    case (Inr fr)
    with CsvFile assms(1) show ?thesis
      by (auto simp: load_data_def required_cols_def split: if_splits)
  qed
qed

lemma load_data_error: "load_data src = Inl e \<Longrightarrow> e = OSError"
  by (auto simp: load_data_def create_demo_data_def Let_def
      split: source.splits sum.splits if_splits bool.splits)

lemma app_no_remove_error: "app src inp c s \<noteq> Raised (KeyError (Elem j))"
proof (cases "load_data src")
  case (Inl e)
  then have "e = OSError" by (rule load_data_error)
  with Inl show ?thesis by (simp add: app_def)
next
  case (Inr r)
  obtain df msgs src' where "r = (df, msgs, src')" by (cases r) auto
  with Inr show ?thesis
    by (simp add: app_def script_no_KeyError)
qed

text \<open>
  Claim C6. Adding an id twice leaves the bookmark set as after one addition, and adding
  an id that is present changes nothing. Removing an id that is not in the set is a no-op:
  on every page the run with a Remove Bookmark click for such an id is the run with no
  click, which leaves the set as it was, and no run ever raises the \<open>KeyError\<close> of
  \<open>set.remove\<close>, since every removal sits behind a membership test.
\<close>

theorem bookmark_idempotence:
  "set_add i (set_add i b) = set_add i b
   \<and> (i \<in> b \<longrightarrow> set_add i b = b)
   \<and> (i \<notin> bookmarks s \<longrightarrow>
        script df inp (RemoveBookmark i) s = script df inp NoClick s
        \<and> run df inp (RemoveBookmark i) s = run df inp NoClick s
        \<and> app src inp (RemoveBookmark i) s = app src inp NoClick s
        \<and> (\<forall>s'. outcome_session (script df inp (RemoveBookmark i) s) = Some s' \<longrightarrow>
              bookmarks s' = bookmarks s))
   \<and> script df inp c s \<noteq> Raised (KeyError (Elem j))
   \<and> app src inp c s \<noteq> Raised (KeyError (Elem j))"
proof -
  have add: "set_add i (set_add i b) = set_add i b \<and> (i \<in> b \<longrightarrow> set_add i b = b)"
    by (auto simp: set_add_def)
  have noop: "script df inp (RemoveBookmark i) s = script df inp NoClick s
        \<and> run df inp (RemoveBookmark i) s = run df inp NoClick s
        \<and> app src inp (RemoveBookmark i) s = app src inp NoClick s
        \<and> (\<forall>s'. outcome_session (script df inp (RemoveBookmark i) s) = Some s' \<longrightarrow>
              bookmarks s' = bookmarks s)"
    if "i \<notin> bookmarks s"
  proof -
    have sc: "script d inp (RemoveBookmark i) s = script d inp NoClick s" for d
      using that by (rule script_remove_absent)
    have rn: "run df inp (RemoveBookmark i) s = run df inp NoClick s"
      by (simp add: run_eq sc)
    have ap: "app src inp (RemoveBookmark i) s = app src inp NoClick s"
      by (simp add: app_def sc split: sum.split prod.split)
    have bm: "bookmarks s' = bookmarks s"
      if "outcome_session (script df inp (RemoveBookmark i) s) = Some s'" for s'
      using that script_NoClick_bookmarks [of df inp s s'] by (simp add: sc)
    from sc rn ap bm show ?thesis by blast
  qed
  from add noop script_no_KeyError [of df inp c s "Elem j"] app_no_remove_error [of src inp c s j]
  show ?thesis by blast
qed

theorem bookmark_idempotence_witness:
  "set_add 3 (set_add 3 {}) = set_add 3 {}
   \<and> script demo_rows \<lparr>mode = Bookmarks, selected_categories = [], search_query = []\<rparr>
        (RemoveBookmark 3) \<lparr>bookmarks = {2}, current_index = 0, reveal = False, random_mode = False\<rparr>
     = Done \<lparr>bookmarks = {2}, current_index = 0, reveal = False, random_mode = False\<rparr>
         (BookmarkList [demo_rows ! 1])"
proof -
  let ?inp = "\<lparr>mode = Bookmarks, selected_categories = [], search_query = []\<rparr>"
  let ?s = "\<lparr>bookmarks = {2}, current_index = 0, reveal = False, random_mode = False\<rparr>"
  have h: "3 \<notin> bookmarks ?s" by simp
  have n: "script demo_rows ?inp NoClick ?s = Done ?s (BookmarkList [demo_rows ! 1])"
    by (simp add: script_def bookmarks_page_def demo_rows_def)
  have "script demo_rows ?inp (RemoveBookmark 3) ?s = script demo_rows ?inp NoClick ?s"
    using bookmark_idempotence [of 3 "{}" ?s demo_rows ?inp] h by blast
  with n have "script demo_rows ?inp (RemoveBookmark 3) ?s = Done ?s (BookmarkList [demo_rows ! 1])"
    by simp
  moreover have "set_add 3 (set_add 3 {}) = set_add 3 {}"
    using bookmark_idempotence [of 3 "{}"] by blast
  ultimately show ?thesis by blast
qed

section \<open>Scenario A\<close>

text \<open>
  Claim C7. The demo table has 5 records with the categories Basics, Hooks, Components and
  System Design (twice); the category filter \<open>System Design\<close> keeps exactly the records
  501 and 502, in that order.
\<close>

theorem scenario_A:
  "length demo_rows = 5
   \<and> map Category demo_rows =
       [''Basics'', ''Hooks'', ''Components'', ''System Design'', ''System Design'']
   \<and> map ID (filtered_df demo_rows [''System Design'']) = [501, 502]
   \<and> filter_view demo_rows [''System Design''] [] = Ok (filtered_df demo_rows [''System Design''])"
  by (simp add: demo_rows_def filtered_df_def filter_view_def display_df_def)

section \<open>The Bookmarks page\<close>

text \<open>
  Claim C8. Over a table with distinct ids, the Bookmarks page lists exactly the records
  of the loaded table whose id is in the bookmark set, in table order; the order in which
  ids were bookmarked plays no part.
\<close>

theorem bookmarks_view_order:
  assumes "mode inp = Bookmarks" and "distinct (map ID df)"
  shows "\<exists>v. script df inp NoClick s = Done s v
           \<and> rows_shown v = filter (\<lambda>r. ID r \<in> bookmarks s) df"
proof (cases "bookmarks s = {}")
  case True
  then show ?thesis
    using assms(1) by (simp add: script_def bookmarks_page_def)
next
  case False
  have "distinct (map ID (filter (\<lambda>row. ID row \<in> bookmarks s) df))"
    using assms(2) by (rule distinct_map_filter)
  then have "bookmark_rows [] (filter (\<lambda>row. ID row \<in> bookmarks s) df) NoClick s = None"
    by (simp add: bookmark_rows_distinct)
  with False show ?thesis
    using assms(1) by (simp add: script_def bookmarks_page_def Let_def)
qed

theorem bookmarks_view_order_witness:
  "\<exists>v. script demo_rows \<lparr>mode = Bookmarks, selected_categories = [], search_query = []\<rparr> NoClick
          \<lparr>bookmarks = {502, 2}, current_index = 0, reveal = False, random_mode = False\<rparr>
        = Done \<lparr>bookmarks = {502, 2}, current_index = 0, reveal = False, random_mode = False\<rparr> v
      \<and> map ID (rows_shown v) = [2, 502]"
proof -
  let ?inp = "\<lparr>mode = Bookmarks, selected_categories = [], search_query = []\<rparr>"
  let ?s = "\<lparr>bookmarks = {502, 2}, current_index = 0, reveal = False, random_mode = False\<rparr>"
  have h: "mode ?inp = Bookmarks" by simp
  have d: "distinct (map ID demo_rows)" by (simp add: demo_rows_def)
  have e: "map ID (filter (\<lambda>r. ID r \<in> bookmarks ?s) demo_rows) = [2, 502]"
    by (simp add: demo_rows_def)
  from bookmarks_view_order [OF h d, of ?s] obtain v
    where "script demo_rows ?inp NoClick ?s = Done ?s v"
      and "rows_shown v = filter (\<lambda>r. ID r \<in> bookmarks ?s) demo_rows"
    by blast
  with e show ?thesis by auto
qed

section \<open>Flashcards and the search text\<close>

text \<open>
  Claim C9. On the Flashcards page two runs that differ only in the search text do the
  same: the same card, the same effect of every button, the same completed run.
\<close>

theorem flashcards_ignore_search:
  "script df \<lparr>mode = Flashcards, selected_categories = C, search_query = q\<rparr> c s
     = script df \<lparr>mode = Flashcards, selected_categories = C, search_query = q'\<rparr> c s
   \<and> run df \<lparr>mode = Flashcards, selected_categories = C, search_query = q\<rparr> c s
     = run df \<lparr>mode = Flashcards, selected_categories = C, search_query = q'\<rparr> c s"
proof -
  have eq: "script df \<lparr>mode = Flashcards, selected_categories = C, search_query = q\<rparr> c' s'
     = script df \<lparr>mode = Flashcards, selected_categories = C, search_query = q'\<rparr> c' s'"
    for c' s'
    by (simp add: script_def)
  show ?thesis
    by (simp add: run_eq eq split: outcome.split)
qed

theorem flashcards_ignore_search_witness:
  "script demo_rows \<lparr>mode = Flashcards, selected_categories = [], search_query = ''hook''\<rparr>
      NoClick initial_session
     = Done initial_session (Flashcard (demo_rows ! 0) False)"
proof -
  have "script demo_rows \<lparr>mode = Flashcards, selected_categories = [], search_query = []\<rparr>
      NoClick initial_session = Done initial_session (Flashcard (demo_rows ! 0) False)"
    by (simp add: script_def flashcards_page_def filtered_df_def clamp_def iloc_def
        initial_session_def demo_rows_def)
  then show ?thesis
    using flashcards_ignore_search [of demo_rows "[]" "''hook''" NoClick initial_session "[]"]
    by simp
qed

section \<open>The reveal flag across a filter change\<close>

lemma browse_rows_reveal:
  "browse_rows keys rs c s = Some out \<Longrightarrow> outcome_session out = Some s' \<Longrightarrow>
   reveal s' = reveal s"
  by (induction rs arbitrary: keys) (auto simp: toggle_bookmark_Rerun split: if_splits)

lemma bookmark_rows_reveal:
  "bookmark_rows keys rs c s = Some out \<Longrightarrow> outcome_session out = Some s' \<Longrightarrow>
   reveal s' = reveal s"
  by (induction rs arbitrary: keys)
    (auto simp: remove_bookmark_def set_remove_def split: if_splits)

lemma browse_page_reveal:
  assumes "outcome_session (browse_page fdf q c s) = Some s'"
  shows "reveal s' = reveal s"
proof (cases "display_df fdf q")
  case (Ok ddf)
  show ?thesis
  proof (cases "browse_rows [] ddf c s")
    case None
    with Ok assms show ?thesis by (simp add: browse_page_def)
  next
    case (Some out)
    with Ok assms have "outcome_session out = Some s'" by (simp add: browse_page_def)
    with Some show ?thesis by (rule browse_rows_reveal)
  qed
next
  case (Raises e)
  with assms show ?thesis by (simp add: browse_page_def)
next
  case Unmodelled
  with assms show ?thesis by (simp add: browse_page_def)
qed

lemma flashcards_page_reveal:
  "outcome_session (flashcards_page fdf c s) = Some s' \<Longrightarrow> \<not> navigation c \<Longrightarrow>
     c \<noteq> RevealAnswer \<Longrightarrow> reveal s' = reveal s"
  by (auto simp: flashcards_page_def Let_def toggle_bookmark_Rerun
      split: sum.splits click.splits if_splits)

lemma bookmarks_page_reveal:
  assumes "outcome_session (bookmarks_page df c s) = Some s'"
  shows "reveal s' = reveal s"
proof (cases "bookmarks s = {}")
  case True
  with assms show ?thesis by (simp add: bookmarks_page_def)
next
  case False
  let ?rs = "filter (\<lambda>row. ID row \<in> bookmarks s) df"
  show ?thesis
  proof (cases "bookmark_rows [] ?rs c s")
    case None
    with False assms show ?thesis by (simp add: bookmarks_page_def Let_def)
  next
    case (Some out)
    with False assms have "outcome_session out = Some s'"
      by (simp add: bookmarks_page_def Let_def)
    with Some show ?thesis by (rule bookmark_rows_reveal)
  qed
qed

lemma script_reveal:
  assumes "outcome_session (script df inp c s) = Some s'" and "\<not> navigation c"
    and "c \<noteq> RevealAnswer"
  shows "reveal s' = reveal s"
proof (cases "c = ClearBookmarks")
  case True
  with assms(1) show ?thesis by (auto simp: script_def)
next
  case False
  show ?thesis
  proof (cases "mode inp")
    case Browse
    with False assms(1) show ?thesis
      by (simp add: script_def Let_def browse_page_reveal)
  next
    case Flashcards
    with False assms show ?thesis
      by (simp add: script_def Let_def flashcards_page_reveal)
  next
    case Bookmarks
    with False assms(1) show ?thesis
      by (simp add: script_def Let_def bookmarks_page_reveal)
  qed
qed

text \<open>
  Claim C10. A run leaves the reveal flag as it was unless a navigation button was pressed
  (the Reveal button, the only other writer, negates it). So after a change of the category
  filter the Flashcards page shows the record now under the cursor, clamped to 0 if need
  be, with the reveal state of before, possibly with its answer already shown.
\<close>

theorem reveal_frame:
  assumes "filtered_df df (selected_categories inp) = fdf"
  shows "(outcome_session (script df inp c s) = Some s' \<and> \<not> navigation c \<and> c \<noteq> RevealAnswer
            \<longrightarrow> reveal s' = reveal s)
       \<and> (mode inp = Flashcards \<and> fdf \<noteq> [] \<and> 0 \<le> current_index s \<longrightarrow>
            script df inp NoClick s =
              Done (clamp fdf s) (Flashcard (fdf ! nat (current_index (clamp fdf s))) (reveal s))
            \<and> reveal (clamp fdf s) = reveal s)"
proof -
  have "script df inp NoClick s =
      Done (clamp fdf s) (Flashcard (fdf ! nat (current_index (clamp fdf s))) (reveal s))"
    if "mode inp = Flashcards" and "fdf \<noteq> []" and "0 \<le> current_index s"
    using that assms by (simp add: script_flashcards flashcards_page_show)
  then show ?thesis
    using script_reveal [of df inp c s s'] by auto
qed

theorem reveal_frame_witness:
  "script demo_rows \<lparr>mode = Flashcards, selected_categories = [''Hooks''], search_query = []\<rparr>
      NoClick \<lparr>bookmarks = {}, current_index = 3, reveal = True, random_mode = False\<rparr>
     = Done \<lparr>bookmarks = {}, current_index = 0, reveal = True, random_mode = False\<rparr>
         (Flashcard (demo_rows ! 1) True)"
proof -
  let ?inp = "\<lparr>mode = Flashcards, selected_categories = [''Hooks''], search_query = []\<rparr>"
  let ?s = "\<lparr>bookmarks = {}, current_index = 3, reveal = True, random_mode = False\<rparr>"
  have h: "filtered_df demo_rows (selected_categories ?inp) = [demo_rows ! 1]"
    by (simp add: filtered_df_def demo_rows_def)
  have e: "clamp [demo_rows ! 1] ?s
      = \<lparr>bookmarks = {}, current_index = 0, reveal = True, random_mode = False\<rparr>"
    by (simp add: clamp_def)
  have "script demo_rows ?inp NoClick ?s =
      Done (clamp [demo_rows ! 1] ?s)
        (Flashcard ([demo_rows ! 1] ! nat (current_index (clamp [demo_rows ! 1] ?s))) (reveal ?s))"
    using reveal_frame [OF h, of NoClick ?s ?s] by simp
  then show ?thesis by (simp only: e) simp
qed

end
